theory Spec2Isabelle
  imports Main "HOL-Library.Word"
begin

unbundle bit_operations_syntax

section \<open>Errors and JavaScript integer operators\<close>

text \<open>
  Every \<^verbatim>\<open>throw\<close> of the sources is a constructor of \<open>error\<close>, named after the tag in
  the message of the thrown \<^verbatim>\<open>Error\<close>. \<open>RangeError\<close> is what Node's own
  \<^verbatim>\<open>Buffer.readUInt8\<close> throws for an offset outside the buffer, \<open>TypeError\<close> what
  JavaScript throws when a property of \<^verbatim>\<open>undefined\<close> is written.
\<close>

datatype error =
    IndexOverflow
  | BufferOverflow
  | MaxIntegerReached
  | InvalidDimension
  | InvalidInput
  | AlreadyExists
  | NoSuchRecordKey
  | RangeError
  | TypeError

text \<open>
  The bitwise operators of JavaScript work on the 32-bit two's complement reading of
  their operands, and a shift uses its count modulo 32.
\<close>

definition js_shl :: "int \<Rightarrow> int \<Rightarrow> int" where
  "js_shl a k = sint (push_bit (nat (k mod 32)) (word_of_int a :: 32 word))"

definition js_sar :: "int \<Rightarrow> int \<Rightarrow> int" where
  "js_sar a k = sint (signed_drop_bit (nat (k mod 32)) (word_of_int a :: 32 word))"

definition js_and :: "int \<Rightarrow> int \<Rightarrow> int" where
  "js_and a b = sint ((word_of_int a :: 32 word) AND word_of_int b)"

definition js_or :: "int \<Rightarrow> int \<Rightarrow> int" where
  "js_or a b = sint ((word_of_int a :: 32 word) OR word_of_int b)"

definition MAX_SAFE_INTEGER :: int where
  "MAX_SAFE_INTEGER = 2 ^ 53 - 1"

section \<open>BitStream (src/utils/generic.ts)\<close>

text \<open>
  \<^verbatim>\<open>class BitStream extends Buffer\<close>: the bytes of the buffer and the three private
  fields. \<open>position\<close>, \<open>currByte\<close> and \<open>byteCounter\<close> start at 0.
\<close>

record BitStream =
  bytes :: "8 word list"
  position :: int
  currByte :: int
  byteCounter :: int

text \<open>A \<open>BitStream\<close> over the bytes \<open>buf\<close>, its fields at their declared initial values.\<close>

definition BitStream_from :: "8 word list \<Rightarrow> BitStream" where
  "BitStream_from buf = \<lparr>bytes = buf, position = 0, currByte = 0, byteCounter = 0\<rparr>"

text \<open>\<^verbatim>\<open>super.readUInt8(offset)\<close>: Node's read of one byte, which throws out of range.\<close>

definition Buffer_readUInt8 :: "8 word list \<Rightarrow> int \<Rightarrow> error + int" where
  "Buffer_readUInt8 buf off =
     (if 0 \<le> off \<and> off < int (length buf) then Inr (uint (buf ! nat off))
      else Inl RangeError)"

text \<open>
  \<^verbatim>\<open>BitStream\<close> declares no constructor and no static \<^verbatim>\<open>from\<close>, so
  \<^verbatim>\<open>BitStream.from(buffer)\<close> is the inherited \<^verbatim>\<open>Buffer.from\<close>: it returns a plain
  \<^verbatim>\<open>Buffer\<close> with the bytes of \<open>buffer\<close>, and \<^verbatim>\<open>readUInt16BE\<close> on that is Node's own
  big-endian read of two bytes, which throws a \<open>RangeError\<close> unless both bytes are
  in the buffer.
\<close>

definition Buffer_from :: "8 word list \<Rightarrow> 8 word list" where
  "Buffer_from buf = buf"

definition Buffer_readUInt16BE :: "8 word list \<Rightarrow> int \<Rightarrow> error + int" where
  "Buffer_readUInt16BE buf off =
     (if 0 \<le> off \<and> off + 2 \<le> int (length buf)
      then Inr (uint (buf ! nat off) * 256 + uint (buf ! nat (off + 1)))
      else Inl RangeError)"

text \<open>The last four lines of \<^verbatim>\<open>getNextBit\<close>: take the top bit and shift the byte.\<close>

definition shift_out :: "BitStream \<Rightarrow> int \<times> BitStream" where
  "shift_out s =
     (let bit = js_sar (currByte s) 7
      in (bit, s\<lparr>byteCounter := byteCounter s - 1,
                 currByte := js_and (js_shl (currByte s) 1) 255\<rparr>))"

definition getNextBit :: "BitStream \<Rightarrow> error + int \<times> BitStream" where
  "getNextBit s =
     (if byteCounter s = 0 then
        (if position s + 1 \<ge> int (length (bytes s)) then Inl IndexOverflow
         else
           (case Buffer_readUInt8 (bytes s) (position s + 1) of
              Inl e \<Rightarrow> Inl e
            | Inr b \<Rightarrow>
                Inr (shift_out (s\<lparr>position := position s + 1, byteCounter := 8,
                                  currByte := b\<rparr>))))
      else Inr (shift_out s))"

text \<open>
  The loop of \<^verbatim>\<open>readBytes\<close>: \<open>k\<close> iterations are left, \<open>idx\<close> is the loop variable.
\<close>

fun readBytes_loop ::
  "8 word list \<Rightarrow> int \<Rightarrow> bool \<Rightarrow> int \<Rightarrow> nat \<Rightarrow> int \<Rightarrow> int \<Rightarrow> error + int" where
  "readBytes_loop buf curr_position le wrap 0 idx curr_result = Inr curr_result"
| "readBytes_loop buf curr_position le wrap (Suc k) idx curr_result =
     (let pos = (if le then 1 else - 1) * (wrap - idx)
      in case Buffer_readUInt8 buf (curr_position + pos) of
           Inl e \<Rightarrow> Inl e
         | Inr b \<Rightarrow>
             (let r = js_or (js_shl curr_result 8) b
              in if r > MAX_SAFE_INTEGER then Inl MaxIntegerReached
                 else readBytes_loop buf curr_position le wrap k (idx + 1) r))"

text \<open>
  \<^verbatim>\<open>offset ?? this.position\<close> takes the offset unless it is \<^verbatim>\<open>undefined\<close> (\<open>None\<close>);
  \<^verbatim>\<open>offset ? ... : ...\<close> tests its truthiness, and the number 0 is falsy.
\<close>

definition truthy_offset :: "int option \<Rightarrow> bool" where
  "truthy_offset offset = (case offset of None \<Rightarrow> False | Some off \<Rightarrow> off \<noteq> 0)"

definition readBytes ::
  "BitStream \<Rightarrow> int \<Rightarrow> int option \<Rightarrow> bool \<Rightarrow> error + int \<times> BitStream" where
  "readBytes s n offset le =
     (let curr_position = (case offset of None \<Rightarrow> position s | Some off \<Rightarrow> off)
      in if curr_position + n \<ge> int (length (bytes s)) then Inl BufferOverflow
         else
           (case readBytes_loop (bytes s) curr_position le (if le then n - 1 else 0)
                   (nat n) 0 0 of
              Inl e \<Rightarrow> Inl e
            | Inr r \<Rightarrow>
                Inr (r, s\<lparr>position :=
                            (if truthy_offset offset then position s
                             else position s + n)\<rparr>)))"

definition getNextUInt8 :: "BitStream \<Rightarrow> error + int \<times> BitStream" where
  "getNextUInt8 s = readBytes s 1 (Some (position s)) False"

definition readUInt8 :: "BitStream \<Rightarrow> int option \<Rightarrow> error + int \<times> BitStream" where
  "readUInt8 s offset = readBytes s 1 offset False"

definition readUInt16BE :: "BitStream \<Rightarrow> int option \<Rightarrow> error + int \<times> BitStream" where
  "readUInt16BE s offset = readBytes s 2 offset False"

text \<open>
  A driver that calls \<^verbatim>\<open>getNextBit\<close> until it throws: the bits read, in order, and
  the error that ended the reading. At most \<open>fuel\<close> reads are made; \<open>None\<close> when
  that many reads all succeeded.
\<close>

fun read_bits :: "nat \<Rightarrow> BitStream \<Rightarrow> (int list \<times> error) option" where
  "read_bits 0 s = None"
| "read_bits (Suc fuel) s =
     (case getNextBit s of
        Inl e \<Rightarrow> Some ([], e)
      | Inr (b, s') \<Rightarrow>
          (case read_bits fuel s' of
             None \<Rightarrow> None
           | Some (bs, e) \<Rightarrow> Some (b # bs, e)))"

text \<open>The bits of a byte, most significant bit first.\<close>

definition msb_first :: "8 word \<Rightarrow> int list" where
  "msb_first w = map (\<lambda>i. if bit w i then 1 else 0) [7, 6, 5, 4, 3, 2, 1, 0]"

section \<open>Markers (src/jpeg/markers/base.ts and the SOI and EOI markers)\<close>

record JPGMarker =
  name :: string
  code :: int
  length_m :: int
  buffer :: "8 word list"

text \<open>
  The constructor of \<^verbatim>\<open>JPGMarker\<close>: \<^verbatim>\<open>this.buffer\<close> is the plain buffer that
  \<^verbatim>\<open>BitStream.from\<close> returns; the length is read at offset 2 when the buffer has at
  least four bytes, and is 2 otherwise.
\<close>

definition JPGMarker_new :: "string \<Rightarrow> int \<Rightarrow> 8 word list \<Rightarrow> error + JPGMarker" where
  "JPGMarker_new nm cd buf =
     (let b = Buffer_from buf
      in if int (length b) \<ge> 4 then
           (case Buffer_readUInt16BE b 2 of
              Inl e \<Rightarrow> Inl e
            | Inr v \<Rightarrow> Inr \<lparr>name = nm, code = cd, length_m = v + 2, buffer = b\<rparr>)
         else Inr \<lparr>name = nm, code = cd, length_m = 2, buffer = b\<rparr>)"

definition markerLength :: "JPGMarker \<Rightarrow> int" where
  "markerLength m = length_m m"

definition SOI_MARKER :: int where
  "SOI_MARKER = 0xFFD8"

definition EOI_MARKER :: int where
  "EOI_MARKER = 0xFFD9"

text \<open>\<^verbatim>\<open>decodeSync\<close> of both markers is \<^verbatim>\<open>this.length = 2\<close>.\<close>

definition decodeSync_SOI :: "JPGMarker \<Rightarrow> JPGMarker" where
  "decodeSync_SOI m = m\<lparr>length_m := 2\<rparr>"

definition decodeSync_EOI :: "JPGMarker \<Rightarrow> JPGMarker" where
  "decodeSync_EOI m = m\<lparr>length_m := 2\<rparr>"

definition JPEG_SOIMarker :: "8 word list \<Rightarrow> error + JPGMarker" where
  "JPEG_SOIMarker buf =
     (case JPGMarker_new ''SOI - Start Of Image'' SOI_MARKER buf of
        Inl e \<Rightarrow> Inl e
      | Inr m \<Rightarrow> Inr (decodeSync_SOI m))"

definition JPEG_EOIMarker :: "8 word list \<Rightarrow> error + JPGMarker" where
  "JPEG_EOIMarker buf =
     (case JPGMarker_new ''EOI - End Of Image'' EOI_MARKER buf of
        Inl e \<Rightarrow> Inl e
      | Inr m \<Rightarrow> Inr (decodeSync_EOI m))"

section \<open>TableMarkerAggregator (src/jpeg/markers/base.ts)\<close>

text \<open>
  \<^verbatim>\<open>JPG_TableMarker\<close> is abstract and no subclass of it is among the sources, so a
  constructed sub-table is what the aggregator reads of it: the two abstract getters
  and \<^verbatim>\<open>markerLength\<close>, which is the field \<open>tableLength\<close> here. The injected
  constructor is a parameter \<open>ctor\<close> from the bytes it is handed to a sub-table, or to
  the error it throws.
\<close>

record TableMarker =
  "identifier" :: int
  destination :: int
  tableLength :: int

type_synonym table_ctor = "8 word list \<Rightarrow> error + TableMarker"

record TableMarkerAggregator =
  markers :: "int \<rightharpoonup> TableMarker"
  size_a :: nat

definition new_aggregator :: TableMarkerAggregator where
  "new_aggregator = \<lparr>markers = Map.empty, size_a = 0\<rparr>"

definition nofMarkers :: "TableMarkerAggregator \<Rightarrow> nat" where
  "nofMarkers a = size_a a"

text \<open>
  \<^verbatim>\<open>Buffer.subarray(start)\<close>: a negative start counts from the end, and the start is
  clamped to the buffer.
\<close>

definition subarray :: "8 word list \<Rightarrow> int \<Rightarrow> 8 word list" where
  "subarray buf start =
     (if start < 0 then drop (nat (int (length buf) + start)) buf else drop (nat start) buf)"

text \<open>
  The \<^verbatim>\<open>while (length > 0)\<close> loop of \<^verbatim>\<open>addMarker\<close>. The result is \<open>None\<close> when the
  loop runs forever, \<open>Some (Inl e)\<close> when the constructor throws \<open>e\<close>, and
  \<open>Some (Inr (current_pos, a))\<close> when the loop is left.
\<close>

partial_function (option) addMarker_loop ::
  "table_ctor \<Rightarrow> 8 word list \<Rightarrow> int \<Rightarrow> int \<Rightarrow> 8 word list \<Rightarrow> TableMarkerAggregator
     \<Rightarrow> (error + int \<times> TableMarkerAggregator) option" where
  "addMarker_loop ctor bbuffer len current_pos start_buffer a =
     (if len > 0 then
        (case ctor start_buffer of
           Inl e \<Rightarrow> Some (Inl e)
         | Inr marker \<Rightarrow>
             addMarker_loop ctor bbuffer
               (len - (tableLength marker - 4))
               (current_pos + tableLength marker - 4)
               (subarray bbuffer (current_pos + tableLength marker - 4))
               (a\<lparr>markers := (markers a)(identifier marker \<mapsto> marker),
                  size_a := size_a a + 1\<rparr>))
      else Some (Inr (current_pos, a)))"

declare addMarker_loop.simps [code]

text \<open>
  \<^verbatim>\<open>addMarker\<close>: \<^verbatim>\<open>bbuffer\<close> is the plain buffer that \<^verbatim>\<open>BitStream.from\<close> returns, and
  the declared length is read from it at \<^verbatim>\<open>position = 2\<close>.
\<close>

definition addMarker ::
  "table_ctor \<Rightarrow> TableMarkerAggregator \<Rightarrow> 8 word list
     \<Rightarrow> (error + int \<times> TableMarkerAggregator) option" where
  "addMarker ctor a buf =
     (let bbuffer = Buffer_from buf
      in case Buffer_readUInt16BE bbuffer 2 of
           Inl e \<Rightarrow> Some (Inl e)
         | Inr v \<Rightarrow>
             addMarker_loop ctor bbuffer (v - 2) (2 + 2) (subarray bbuffer (2 + 2)) a)"

text \<open>
  The states of the loop that a run reaches from the remaining length \<open>len0\<close> at the
  position \<open>pos0\<close>: the start, and the state after an iteration from a state reached
  with a positive remaining length, where the constructor built a sub-table. The
  sub-tables that a run constructs are those built at the states it reaches.
\<close>

inductive loop_reaches ::
  "table_ctor \<Rightarrow> 8 word list \<Rightarrow> int \<Rightarrow> int \<Rightarrow> int \<Rightarrow> int \<Rightarrow> bool"
  for ctor :: table_ctor and bbuffer :: "8 word list" and len0 :: int and pos0 :: int where
  start: "loop_reaches ctor bbuffer len0 pos0 len0 pos0"
| iteration:
    "loop_reaches ctor bbuffer len0 pos0 len current_pos \<Longrightarrow> 0 < len \<Longrightarrow>
     ctor (subarray bbuffer current_pos) = Inr marker \<Longrightarrow>
     loop_reaches ctor bbuffer len0 pos0
       (len - (tableLength marker - 4)) (current_pos + tableLength marker - 4)"

definition getMarker :: "TableMarkerAggregator \<Rightarrow> int \<Rightarrow> error + TableMarker" where
  "getMarker a ident =
     (case markers a ident of None \<Rightarrow> Inl NoSuchRecordKey | Some m \<Rightarrow> Inr m)"

section \<open>ToZigZag\<close>

text \<open>
  A cell of the matrix holds a number or \<^verbatim>\<open>undefined\<close> (\<open>None\<close>): reading
  \<^verbatim>\<open>values[i]\<close> past the end of the vector gives \<^verbatim>\<open>undefined\<close>, and so does an
  array slot that was never written.

  A row is a JavaScript array. Writing at an index past its end extends it, and
  writing at a negative index adds a property and leaves the elements alone; both are
  kept, in \<open>elems\<close> and \<open>props\<close>. The matrix itself has \<open>nr\<close> rows, and writing
  \<^verbatim>\<open>zigzag[r][c]\<close> for a row \<open>r\<close> it does not have throws a \<open>TypeError\<close>.
\<close>

type_synonym cell = "int option"

record js_row =
  elems :: "cell list"
  props :: "(int \<times> cell) list"

definition row_set :: "js_row \<Rightarrow> int \<Rightarrow> cell \<Rightarrow> js_row" where
  "row_set row c v =
     (if c < 0 then row\<lparr>props := (c, v) # filter (\<lambda>p. fst p \<noteq> c) (props row)\<rparr>
      else if nat c < length (elems row) then row\<lparr>elems := (elems row)[nat c := v]\<rparr>
      else row\<lparr>elems := elems row @ replicate (nat c - length (elems row)) None @ [v]\<rparr>)"

definition matrix_set :: "js_row list \<Rightarrow> int \<Rightarrow> int \<Rightarrow> cell \<Rightarrow> error + js_row list" where
  "matrix_set zz r c v =
     (if 0 \<le> r \<and> r < int (length zz) then Inr (zz[nat r := row_set (zz ! nat r) c v])
      else Inl TypeError)"

definition values_at :: "int list \<Rightarrow> nat \<Rightarrow> cell" where
  "values_at vals i = (if i < length vals then Some (vals ! i) else None)"

record zz_state =
  zigzag :: "js_row list"
  direction :: int
  element_idx :: nat
  drop_down_cnt :: int
  drop_down_flag :: int
  curr_position :: "int \<times> int"
  last_curr_pos :: "int \<times> int"

text \<open>The inner loop, which walks one diagonal; \<open>k\<close> iterations are left.\<close>

fun diagonal_loop :: "int list \<Rightarrow> nat \<Rightarrow> zz_state \<Rightarrow> error + zz_state" where
  "diagonal_loop vals 0 s = Inr s"
| "diagonal_loop vals (Suc k) s =
     (case curr_position s of
        (r, c) \<Rightarrow>
          (case matrix_set (zigzag s) r c (values_at vals (element_idx s)) of
             Inl e \<Rightarrow> Inl e
           | Inr zz \<Rightarrow>
               diagonal_loop vals k
                 (s\<lparr>zigzag := zz,
                    element_idx := element_idx s + 1,
                    last_curr_pos := curr_position s,
                    curr_position := (r - direction s, c + direction s)\<rparr>)))"

text \<open>One iteration of the outer loop, for the diagonal \<open>diag_sum\<close>.\<close>

definition diagonal_step :: "int list \<Rightarrow> int \<Rightarrow> int \<Rightarrow> zz_state \<Rightarrow> error + zz_state" where
  "diagonal_step vals min_dimension diag_sum s =
     (let s1 = (if diag_sum > min_dimension \<and> drop_down_flag s = 0
                then s\<lparr>drop_down_flag := 1\<rparr> else s);
          s2 = (if (direction s1 > 0) \<noteq> (drop_down_flag s1 \<noteq> 0)
                then s1\<lparr>curr_position := (fst (curr_position s1), snd (curr_position s1) + 1)\<rparr>
                else s1\<lparr>curr_position := (fst (curr_position s1) + 1, snd (curr_position s1))\<rparr>)
      in case diagonal_loop vals
                (nat (diag_sum + 1 - drop_down_flag s2 * drop_down_cnt s2)) s2 of
           Inl e \<Rightarrow> Inl e
         | Inr s3 \<Rightarrow>
             (let s4 = s3\<lparr>direction := (- 1) ^ nat (diag_sum + 1)\<rparr>;
                  s5 = (if diag_sum > min_dimension
                        then s4\<lparr>drop_down_cnt := drop_down_cnt s4 + 2\<rparr> else s4)
              in Inr (s5\<lparr>curr_position := last_curr_pos s5\<rparr>)))"

text \<open>
  The outer loop over the diagonals \<open>ds\<close> still to walk: \<open>diag_sum\<close> runs over the
  integers from 0 that are less than \<open>(nr - 1) + (nc - 1) + 1\<close>.
\<close>

fun diagonals_loop :: "int list \<Rightarrow> int \<Rightarrow> int list \<Rightarrow> zz_state \<Rightarrow> error + zz_state" where
  "diagonals_loop vals min_dimension [] s = Inr s"
| "diagonals_loop vals min_dimension (diag_sum # ds) s =
     (case diagonal_step vals min_dimension diag_sum s of
        Inl e \<Rightarrow> Inl e
      | Inr s' \<Rightarrow> diagonals_loop vals min_dimension ds s')"

definition ToZigZag :: "int list \<Rightarrow> nat \<Rightarrow> nat \<Rightarrow> error + js_row list" where
  "ToZigZag vals nr nc =
     (if length vals \<noteq> nr * nc then Inl InvalidDimension
      else
        (let zz0 = replicate nr \<lparr>elems = replicate nc (Some 0), props = []\<rparr>;
             min_dimension = min (int nr - 1) (int nc - 1);
             cnt = (if min_dimension mod 2 = 0 then 1 else 2)
         in case matrix_set zz0 0 0 (values_at vals 0) of
              Inl e \<Rightarrow> Inl e
            | Inr zz1 \<Rightarrow>
                (case diagonals_loop vals min_dimension
                        [0 .. (int nr - 1) + (int nc - 1) + 1 - 1]
                        \<lparr>zigzag = zz1, direction = - 1, element_idx = 0,
                         drop_down_cnt = cnt, drop_down_flag = 0,
                         curr_position = (0, 0), last_curr_pos = (0, 0)\<rparr> of
                   Inl e \<Rightarrow> Inl e
                 | Inr s \<Rightarrow> Inr (zigzag s))))"

section \<open>HuffmanNode and JPEGHuffmanTree\<close>

text \<open>
  The field \<^verbatim>\<open>symbol : number | null\<close>. At run time it can also hold \<^verbatim>\<open>undefined\<close>,
  which is what \<^verbatim>\<open>symbols[i]\<close> gives past the end of the array.
\<close>

datatype symbol_value = Null | Undefined | Num int

datatype HuffmanNode =
  HuffmanNode (left: "HuffmanNode option") (rigth: "HuffmanNode option")
    (symbol: symbol_value)

text \<open>\<^verbatim>\<open>new HuffmanNode()\<close>: no children, and \<^verbatim>\<open>symbol ?? null\<close> is \<^verbatim>\<open>null\<close>.\<close>

definition new_node :: HuffmanNode where
  "new_node = HuffmanNode None None Null"

definition validateInput :: "int \<Rightarrow> error + unit" where
  "validateInput b = (if b < 0 \<or> b > 1 then Inl InvalidInput else Inr ())"

definition setNextNode :: "HuffmanNode \<Rightarrow> int \<Rightarrow> error + HuffmanNode" where
  "setNextNode node b =
     (case validateInput b of
        Inl e \<Rightarrow> Inl e
      | Inr _ \<Rightarrow>
          (if b = 0 \<and> left node = None
           then Inr (HuffmanNode (Some new_node) (rigth node) (symbol node))
           else if b = 1 \<and> rigth node = None
           then Inr (HuffmanNode (left node) (Some new_node) (symbol node))
           else Inr node))"

definition getNextNode :: "HuffmanNode \<Rightarrow> int \<Rightarrow> error + HuffmanNode option" where
  "getNextNode node b =
     (case validateInput b of
        Inl e \<Rightarrow> Inl e
      | Inr _ \<Rightarrow>
          (if b = 0 then Inr (left node)
           else if b = 1 then Inr (rigth node)
           else Inr None))"

text \<open>
  \<^verbatim>\<open>if (this.symbol)\<close> tests the truthiness of the symbol: \<^verbatim>\<open>null\<close>,
  \<^verbatim>\<open>undefined\<close> and the number 0 are falsy.
\<close>

definition truthy :: "symbol_value \<Rightarrow> bool" where
  "truthy v = (case v of Null \<Rightarrow> False | Undefined \<Rightarrow> False | Num n \<Rightarrow> n \<noteq> 0)"

definition setSymbol :: "HuffmanNode \<Rightarrow> symbol_value \<Rightarrow> error + HuffmanNode" where
  "setSymbol node v =
     (if truthy (symbol node) then Inl AlreadyExists
      else Inr (HuffmanNode (left node) (rigth node) v))"

definition getSymbol :: "HuffmanNode \<Rightarrow> symbol_value" where
  "getSymbol node = symbol node"

text \<open>\<^verbatim>\<open>this.symbol != null\<close> is false for \<^verbatim>\<open>null\<close> and for \<^verbatim>\<open>undefined\<close>.\<close>

definition isLeaf :: "HuffmanNode \<Rightarrow> bool" where
  "isLeaf node = (case symbol node of Null \<Rightarrow> False | Undefined \<Rightarrow> False | Num n \<Rightarrow> True)"

record JPEGHuffmanTree =
  bits :: "int list"
  symbols :: "int list"
  codes :: "int list"
  root :: HuffmanNode

definition new_tree :: JPEGHuffmanTree where
  "new_tree = \<lparr>bits = [], symbols = [], codes = [], root = new_node\<rparr>"

text \<open>
  \<^verbatim>\<open>generateCodes\<close>. The inner loop pushes \<open>k\<close> consecutive codes; the outer loop
  runs over the counts that are left and carries \<open>curr_code\<close> and the codes pushed.
\<close>

fun push_codes :: "nat \<Rightarrow> int \<Rightarrow> int list \<Rightarrow> int \<times> int list" where
  "push_codes 0 curr_code cs = (curr_code, cs)"
| "push_codes (Suc k) curr_code cs = push_codes k (curr_code + 1) (cs @ [curr_code])"

fun generateCodes_loop :: "int list \<Rightarrow> int \<Rightarrow> int list \<Rightarrow> int list" where
  "generateCodes_loop [] curr_code cs = cs"
| "generateCodes_loop (bit_count # rest) curr_code cs =
     (case (if bit_count > 0 then push_codes (nat bit_count) curr_code cs
            else (curr_code, cs @ [- 1])) of
        (curr_code', cs') \<Rightarrow> generateCodes_loop rest (js_shl curr_code' 1) cs')"

definition generateCodes :: "JPEGHuffmanTree \<Rightarrow> int list \<Rightarrow> JPEGHuffmanTree" where
  "generateCodes t bs = t\<lparr>codes := generateCodes_loop bs 0 (codes t)\<rparr>"

text \<open>
  Reading an array: \<^verbatim>\<open>undefined\<close> out of range. A code that is \<^verbatim>\<open>undefined\<close> counts
  as 0 under \<^verbatim>\<open>>>\<close>.
\<close>

definition code_at :: "int list \<Rightarrow> int \<Rightarrow> int" where
  "code_at cs i = (if 0 \<le> i \<and> i < int (length cs) then cs ! nat i else 0)"

definition symbol_at :: "int list \<Rightarrow> int \<Rightarrow> symbol_value" where
  "symbol_at ss i = (if 0 \<le> i \<and> i < int (length ss) then Num (ss ! nat i) else Undefined)"

text \<open>
  The bits \<^verbatim>\<open>(curr_code >> i) & 1\<close> for \<open>i\<close> from \<open>bit_len - 1\<close> down to 0, in the
  order the traversal reads them.
\<close>

definition code_bits :: "int \<Rightarrow> nat \<Rightarrow> int list" where
  "code_bits curr_code bit_len =
     map (\<lambda>i. js_and (js_sar curr_code (int i)) 1) (rev [0 ..< bit_len])"

text \<open>
  The traversal from \<^verbatim>\<open>curr_node\<close> that creates the missing children and sets the
  symbol on the node it ends on. The nodes are mutated in place in the source; here
  the updated subtree is returned and put back under its parent.
\<close>

fun add_code :: "HuffmanNode \<Rightarrow> int list \<Rightarrow> symbol_value \<Rightarrow> error + HuffmanNode" where
  "add_code curr_node [] curr_symbol = setSymbol curr_node curr_symbol"
| "add_code curr_node (b # rest) curr_symbol =
     (case setNextNode curr_node b of
        Inl e \<Rightarrow> Inl e
      | Inr node \<Rightarrow>
          (case getNextNode node b of
             Inl e \<Rightarrow> Inl e
           | Inr None \<Rightarrow> Inl TypeError
           | Inr (Some child) \<Rightarrow>
               (case add_code child rest curr_symbol of
                  Inl e \<Rightarrow> Inl e
                | Inr child' \<Rightarrow>
                    (if b = 0
                     then Inr (HuffmanNode (Some child') (rigth node) (symbol node))
                     else Inr (HuffmanNode (left node) (Some child') (symbol node))))))"

text \<open>
  The loop over \<^verbatim>\<open>counter\<close> for one bit length: \<open>k\<close> iterations are left. Both the
  code and the symbol are read at \<^verbatim>\<open>codes_index + counter\<close>.
\<close>

fun counter_loop ::
  "JPEGHuffmanTree \<Rightarrow> nat \<Rightarrow> int \<Rightarrow> nat \<Rightarrow> int \<Rightarrow> HuffmanNode \<Rightarrow> error + HuffmanNode" where
  "counter_loop t bit_len codes_index 0 counter rt = Inr rt"
| "counter_loop t bit_len codes_index (Suc k) counter rt =
     (let curr_code = code_at (codes t) (codes_index + counter);
          curr_symbol = symbol_at (symbols t) (codes_index + counter)
      in case add_code rt (code_bits curr_code bit_len) curr_symbol of
           Inl e \<Rightarrow> Inl e
         | Inr rt' \<Rightarrow> counter_loop t bit_len codes_index k (counter + 1) rt')"

text \<open>
  The loop over \<^verbatim>\<open>bits_idx\<close>: \<open>bs\<close> are the counts from \<^verbatim>\<open>this.bits[bits_idx]\<close> on.
\<close>

fun buildHuffmanTree_loop ::
  "JPEGHuffmanTree \<Rightarrow> int list \<Rightarrow> nat \<Rightarrow> int \<Rightarrow> int \<Rightarrow> HuffmanNode \<Rightarrow> error + HuffmanNode" where
  "buildHuffmanTree_loop t [] bits_idx symbols_index codes_index rt = Inr rt"
| "buildHuffmanTree_loop t (n # bs) bits_idx symbols_index codes_index rt =
     (let bit_len = bits_idx + 1
      in if n = 0
         then buildHuffmanTree_loop t bs (bits_idx + 1) symbols_index (codes_index + 1) rt
         else
           (case counter_loop t bit_len codes_index (nat n) 0 rt of
              Inl e \<Rightarrow> Inl e
            | Inr rt' \<Rightarrow>
                buildHuffmanTree_loop t bs (bits_idx + 1) (symbols_index + n)
                  (codes_index + n) rt'))"

definition buildHuffmanTree :: "JPEGHuffmanTree \<Rightarrow> error + JPEGHuffmanTree" where
  "buildHuffmanTree t =
     (case buildHuffmanTree_loop t (bits t) 0 0 0 (root t) of
        Inl e \<Rightarrow> Inl e
      | Inr rt \<Rightarrow> Inr (t\<lparr>root := rt\<rparr>))"

definition buildTree :: "JPEGHuffmanTree \<Rightarrow> int list \<Rightarrow> int list \<Rightarrow> error + JPEGHuffmanTree" where
  "buildTree t bs ss = buildHuffmanTree (generateCodes (t\<lparr>bits := bs, symbols := ss\<rparr>) bs)"

text \<open>
  \<^verbatim>\<open>decode\<close> walks the tree along the bits that \<^verbatim>\<open>BitGenerator(code, true)\<close> yields.
  \<^verbatim>\<open>BitGenerator\<close> is imported from \<^verbatim>\<open>utils/bitutil\<close>, which is not among the sources, so
  the generator is the parameter \<open>gen\<close>: the bits it yields for a code.
\<close>

fun decode_walk :: "HuffmanNode \<Rightarrow> int list \<Rightarrow> error + symbol_value" where
  "decode_walk curr_node [] =
     (if \<not> isLeaf curr_node then Inr Null else Inr (getSymbol curr_node))"
| "decode_walk curr_node (b # rest) =
     (case getNextNode curr_node b of
        Inl e \<Rightarrow> Inl e
      | Inr None \<Rightarrow> Inr Null
      | Inr (Some node) \<Rightarrow> decode_walk node rest)"

definition decode :: "(int \<Rightarrow> int list) \<Rightarrow> JPEGHuffmanTree \<Rightarrow> int \<Rightarrow> error + symbol_value" where
  "decode gen t c = decode_walk (root t) (gen c)"

section \<open>Sub-table constructors for the examples\<close>

text \<open>
  No subclass of \<^verbatim>\<open>JPG_TableMarker\<close> is among the sources, so the examples use three
  constructors of their own. \<open>one_byte_table\<close> is a sub-table with one byte of content:
  that byte is its identifier and destination, and it reports the length 5, so the
  aggregator moves one byte on. \<open>constant_table k\<close> reports the length \<open>k\<close> whatever
  it is handed. \<open>base_table\<close> adds nothing to the constructor of \<^verbatim>\<open>JPGMarker\<close>: its
  length is the one that constructor reads from the bytes.
\<close>

definition one_byte_table :: table_ctor where
  "one_byte_table buf =
     (case buf of
        [] \<Rightarrow> Inl RangeError
      | x # _ \<Rightarrow> Inr \<lparr>identifier = uint x, destination = uint x, tableLength = 5\<rparr>)"

definition constant_table :: "int \<Rightarrow> table_ctor" where
  "constant_table k buf = Inr \<lparr>identifier = 0, destination = 0, tableLength = k\<rparr>"

definition base_table :: table_ctor where
  "base_table buf =
     (case JPGMarker_new ''table'' 0xFFC4 buf of
        Inl e \<Rightarrow> Inl e
      | Inr m \<Rightarrow>
          Inr \<lparr>identifier = (case buf of [] \<Rightarrow> 0 | x # _ \<Rightarrow> uint x),
               destination = (case buf of [] \<Rightarrow> 0 | x # _ \<Rightarrow> uint x),
               tableLength = markerLength m\<rparr>)"

section \<open>Properties of the BitStream\<close>

lemma readBytes_bytes:
  "readBytes s n offset le = Inr (v, s') \<Longrightarrow> bytes s' = bytes s"
  by (auto simp: readBytes_def Let_def split: if_splits sum.splits)

lemma readBytes_position_omitted:
  "readBytes s n None le = Inr (v, s') \<Longrightarrow> position s' = position s + n"
  by (auto simp: readBytes_def Let_def truthy_offset_def split: if_splits sum.splits)

lemma readBytes_position_nonzero_offset:
  "readBytes s n (Some off) le = Inr (v, s') \<Longrightarrow> off \<noteq> 0 \<Longrightarrow> position s' = position s"
  by (auto simp: readBytes_def Let_def truthy_offset_def split: if_splits sum.splits)

lemma readBytes_position_zero_offset:
  "readBytes s n (Some 0) le = Inr (v, s') \<Longrightarrow> position s' = position s + n"
  by (auto simp: readBytes_def Let_def truthy_offset_def split: if_splits sum.splits)

lemma readBytes_loop_not_BufferOverflow:
  "readBytes_loop buf p le wrap k idx r \<noteq> Inl BufferOverflow"
  by (induction k arbitrary: idx r)
     (auto simp: Let_def Buffer_readUInt8_def split: sum.splits if_splits)

lemma readBytes_BufferOverflow_iff:
  "readBytes s n offset le = Inl BufferOverflow \<longleftrightarrow>
     (case offset of None \<Rightarrow> position s | Some off \<Rightarrow> off) + n \<ge> int (length (bytes s))"
  using readBytes_loop_not_BufferOverflow
  by (auto simp: readBytes_def Let_def split: sum.splits)

lemma sint_word_of_int_small:
  "- (2 ^ 31) \<le> x \<Longrightarrow> x < 2 ^ 31 \<Longrightarrow> sint (word_of_int x :: 32 word) = x"
  by (simp add: sint_sbintrunc' signed_take_bit_int_eq_self)

lemma js_sar_byte: "0 \<le> x \<Longrightarrow> x < 256 \<Longrightarrow> js_sar x 7 = x div 128"
  by (simp add: js_sar_def sint_signed_drop_bit_eq sint_word_of_int_small drop_bit_eq_div)

lemma js_shl_byte: "0 \<le> x \<Longrightarrow> x < 256 \<Longrightarrow> js_shl x 1 = 2 * x"
proof -
  assume a: "0 \<le> x" "x < 256"
  have "js_shl x 1 = sint (word_of_int (2 * x) :: 32 word)"
    by (simp add: js_shl_def push_bit_eq_mult mult.commute)
  with a sint_word_of_int_small [of "2 * x"] show ?thesis
    by simp
qed

lemma js_and_255: "0 \<le> y \<Longrightarrow> y < 2 ^ 31 \<Longrightarrow> js_and y 255 = y mod 256"
proof -
  assume a: "0 \<le> y" "y < 2 ^ 31"
  have m: "(255 :: int) = mask 8" by (simp add: mask_eq_exp_minus_1)
  have "(word_of_int y :: 32 word) AND word_of_int 255 = word_of_int (y AND 255)"
    by (simp add: of_int_and_eq)
  moreover have "y AND 255 = y mod 256"
    unfolding m by (simp add: take_bit_eq_mod flip: take_bit_eq_mask)
  moreover have "0 \<le> y mod 256" "y mod 256 < 2 ^ 31"
    by (simp, rule less_trans [of _ 256]) simp_all
  ultimately show ?thesis
    by (simp add: js_and_def sint_word_of_int_small)
qed

lemma js_shl_and_byte: "0 \<le> x \<Longrightarrow> x < 256 \<Longrightarrow> js_and (js_shl x 1) 255 = (2 * x) mod 256"
  by (simp add: js_shl_byte js_and_255)

lemma top_bit:
  assumes "j < 8"
  shows "((uint (w :: 8 word) * 2 ^ j) mod 256) div 128 = (if bit w (7 - j) then 1 else 0)"
proof -
  define d where "d = ((uint w * 2 ^ j) mod 256) div 128"
  have d_eq: "d = drop_bit 7 (take_bit 8 (push_bit j (uint w)))"
    by (simp add: d_def drop_bit_eq_div take_bit_eq_mod push_bit_eq_mult)
  have range: "0 \<le> d" "d < 2"
    by (simp_all add: d_def)
  have "odd d \<longleftrightarrow> bit (take_bit 8 (push_bit j (uint w))) 7"
    by (simp add: d_eq bit_iff_odd_drop_bit)
  also have "\<dots> \<longleftrightarrow> bit w (7 - j)"
    using assms by (simp add: bit_simps)
  finally have "odd d \<longleftrightarrow> bit w (7 - j)" .
  with range have "d = (if bit w (7 - j) then 1 else 0)"
    by (auto elim: oddE)
  then show ?thesis by (simp add: d_def)
qed

lemma getNextBit_shift:
  assumes "byteCounter s \<noteq> 0" "0 \<le> currByte s" "currByte s < 256"
  shows "getNextBit s =
     Inr (currByte s div 128,
          s\<lparr>byteCounter := byteCounter s - 1, currByte := (2 * currByte s) mod 256\<rparr>)"
  using assms by (simp add: getNextBit_def shift_out_def js_sar_byte js_shl_and_byte)

lemma getNextBit_load:
  assumes "byteCounter s = 0" "0 \<le> position s" "position s + 1 < int (length (bytes s))"
  shows "getNextBit s =
     getNextBit (s\<lparr>position := position s + 1, byteCounter := 8,
                   currByte := uint (bytes s ! nat (position s + 1))\<rparr>)"
  using assms by (simp add: getNextBit_def Buffer_readUInt8_def)

lemma read_bits_shift:
  assumes "byteCounter s = int k" "0 \<le> currByte s" "currByte s < 256"
  shows "read_bits (k + fuel) s =
     (case read_bits fuel (s\<lparr>byteCounter := 0, currByte := (currByte s * 2 ^ k) mod 256\<rparr>) of
        None \<Rightarrow> None
      | Some (bs, e) \<Rightarrow>
          Some (map (\<lambda>j. ((currByte s * 2 ^ j) mod 256) div 128) [0 ..< k] @ bs, e))"
  using assms
proof (induction k arbitrary: s)
  case 0
  then have "s\<lparr>byteCounter := 0, currByte := currByte s mod 256\<rparr> = s"
    by simp
  then show ?case by (simp split: option.split)
next
  case (Suc k)
  let ?s' = "s\<lparr>byteCounter := byteCounter s - 1, currByte := (2 * currByte s) mod 256\<rparr>"
  from Suc.prems have step: "getNextBit s = Inr (currByte s div 128, ?s')"
    by (intro getNextBit_shift) simp_all
  from Suc.prems have "byteCounter ?s' = int k" "0 \<le> currByte ?s'" "currByte ?s' < 256"
    by simp_all
  note ih = Suc.IH [OF this]
  have ar: "((2 * c) mod 256 * 2 ^ j) mod 256 = (c * (2 * 2 ^ j)) mod 256" for c :: int and j :: nat
    using mod_mult_left_eq [of "2 * c" 256 "2 ^ j"] by (simp add: ac_simps)
  have final: "?s'\<lparr>byteCounter := 0, currByte := (currByte ?s' * 2 ^ k) mod 256\<rparr> =
      s\<lparr>byteCounter := 0, currByte := (currByte s * 2 ^ Suc k) mod 256\<rparr>"
    by (simp add: ar)
  have bits_eq: "map (\<lambda>j. ((currByte s * 2 ^ j) mod 256) div 128) [0 ..< Suc k] =
      currByte s div 128 # map (\<lambda>j. ((currByte ?s' * 2 ^ j) mod 256) div 128) [0 ..< k]"
    using Suc.prems
    by (simp add: map_upt_Suc ar del: upt_Suc)
  show ?case
    using step ih unfolding final bits_eq
    by (simp split: option.split)
qed

lemma bits_of_byte: "map (\<lambda>j. ((uint w * 2 ^ j) mod 256) div 128) [0 ..< 8] = msb_first w"
proof -
  have upt8: "[0 ..< 8] = [0, 1, 2, 3, 4, 5, 6, 7 :: nat]"
    by (simp add: upt_rec)
  have b0: "((uint w * 2 ^ (0::nat)) mod 256) div 128 = (if bit w 7 then 1 else 0)"
    using top_bit [of 0 w] by simp
  have b1: "((uint w * 2 ^ (1::nat)) mod 256) div 128 = (if bit w 6 then 1 else 0)"
    using top_bit [of 1 w] by simp
  have b2: "((uint w * 2 ^ (2::nat)) mod 256) div 128 = (if bit w 5 then 1 else 0)"
    using top_bit [of 2 w] by simp
  have b3: "((uint w * 2 ^ (3::nat)) mod 256) div 128 = (if bit w 4 then 1 else 0)"
    using top_bit [of 3 w] by simp
  have b4: "((uint w * 2 ^ (4::nat)) mod 256) div 128 = (if bit w 3 then 1 else 0)"
    using top_bit [of 4 w] by simp
  have b5: "((uint w * 2 ^ (5::nat)) mod 256) div 128 = (if bit w 2 then 1 else 0)"
    using top_bit [of 5 w] by simp
  have b6: "((uint w * 2 ^ (6::nat)) mod 256) div 128 = (if bit w 1 then 1 else 0)"
    using top_bit [of 6 w] by simp
  have b7: "((uint w * 2 ^ (7::nat)) mod 256) div 128 = (if bit w 0 then 1 else 0)"
    using top_bit [of 7 w] by simp
  show ?thesis
    unfolding upt8 msb_first_def
    by (simp only: list.map b0 b1 b2 b3 b4 b5 b6 b7)
qed

lemma read_bits_byte:
  assumes "position s = int p" "byteCounter s = 0" "Suc p < length (bytes s)"
  shows "read_bits (8 + Suc fuel) s =
     (case read_bits (Suc fuel) (s\<lparr>position := int (Suc p), byteCounter := 0, currByte := 0\<rparr>) of
        None \<Rightarrow> None
      | Some (bs, e) \<Rightarrow> Some (msb_first (bytes s ! Suc p) @ bs, e))"
proof -
  let ?w = "bytes s ! Suc p"
  let ?l = "s\<lparr>position := int (Suc p), byteCounter := 8, currByte := uint ?w\<rparr>"
  have eight: "8 + Suc fuel = Suc (7 + Suc fuel)" by simp
  from assms have "getNextBit s = getNextBit ?l"
    using getNextBit_load [of s] by (simp add: nat_add_distrib add.commute)
  then have "read_bits (Suc f) s = read_bits (Suc f) ?l" for f
    by simp
  then have "read_bits (8 + Suc fuel) s = read_bits (8 + Suc fuel) ?l"
    unfolding eight .
  also have "\<dots> =
     (case read_bits (Suc fuel) (?l\<lparr>byteCounter := 0, currByte := (currByte ?l * 2 ^ 8) mod 256\<rparr>) of
        None \<Rightarrow> None
      | Some (bs, e) \<Rightarrow>
          Some (map (\<lambda>j. ((currByte ?l * 2 ^ j) mod 256) div 128) [0 ..< 8] @ bs, e))"
  proof (rule read_bits_shift)
    show "currByte ?l < 256"
      using uint_lt2p [of ?w] by simp
  qed simp_all
  also have "?l\<lparr>byteCounter := 0, currByte := (currByte ?l * 2 ^ 8) mod 256\<rparr> =
      s\<lparr>position := int (Suc p), byteCounter := 0, currByte := 0\<rparr>"
    by simp
  also have "map (\<lambda>j. ((currByte ?l * 2 ^ j) mod 256) div 128) [0 ..< 8] = msb_first ?w"
    using bits_of_byte [of ?w] by simp
  finally show ?thesis .
qed

lemma read_bits_from:
  "read_bits (Suc (8 * length (drop (Suc p) buf)))
     \<lparr>bytes = buf, position = int p, currByte = 0, byteCounter = 0\<rparr> =
   Some (concat (map msb_first (drop (Suc p) buf)), IndexOverflow)"
proof (induction "length buf - Suc p" arbitrary: p)
  case 0
  then have "drop (Suc p) buf = []" by simp
  with 0 show ?case by (simp add: getNextBit_def)
next
  case (Suc n)
  then have lt: "Suc p < length buf" by simp
  let ?s = "\<lparr>bytes = buf, position = int p, currByte = 0, byteCounter = 0\<rparr>"
  have dr: "drop (Suc p) buf = buf ! Suc p # drop (Suc (Suc p)) buf"
    using lt by (simp add: Cons_nth_drop_Suc)
  have fuel: "Suc (8 * length (drop (Suc p) buf)) =
      8 + Suc (8 * length (drop (Suc (Suc p)) buf))"
    using lt by simp
  from Suc(2) have "n = length buf - Suc (Suc p)" by simp
  note ih = Suc(1) [OF this]
  have "read_bits (8 + Suc (8 * length (drop (Suc (Suc p)) buf))) ?s =
     (case read_bits (Suc (8 * length (drop (Suc (Suc p)) buf)))
             (?s\<lparr>position := int (Suc p), byteCounter := 0, currByte := 0\<rparr>) of
        None \<Rightarrow> None
      | Some (bs, e) \<Rightarrow> Some (msb_first (bytes ?s ! Suc p) @ bs, e))"
    using lt by (intro read_bits_byte) simp_all
  with ih show ?case
    unfolding fuel by (simp add: dr)
qed

text \<open>
  The bits that sequential reads yield from a fresh stream: those of every byte but
  the first, and then the read fails.
\<close>

lemma read_bits_tail:
  "read_bits (Suc (8 * length (tl buf))) (BitStream_from buf) =
     Some (concat (map msb_first (tl buf)), IndexOverflow)"
  using read_bits_from [of 0 buf] by (simp add: BitStream_from_def drop_Suc)

lemma length_msb_first: "length (concat (map msb_first xs)) = 8 * length xs"
  by (induction xs) (simp_all add: msb_first_def)

text \<open>
  Claim C1 says that single-bit reads over a sequence of \<open>n\<close> bytes yield \<open>8 * n\<close>
  bits, most significant bit first, before the read fails. The first call of
  \<^verbatim>\<open>getNextBit\<close> increments \<open>position\<close> from 0 to 1 before it loads a byte, so byte 0
  is skipped. For every sequence the reads yield the bits of the bytes after the
  first, \<open>8 * (n - 1)\<close> bits, and the next read fails with \<open>IndexOverflow\<close>: over the
  two bytes \<open>0xFF, 0xA5\<close> they yield the eight bits of \<open>0xA5\<close> only, and over one
  byte the first read fails already.
\<close>

theorem getNextBit_skips_first_byte:
  "read_bits (Suc (8 * length (tl buf))) (BitStream_from buf) =
     Some (concat (map msb_first (tl buf)), IndexOverflow)
   \<and> length (concat (map msb_first (tl buf))) = 8 * (length buf - 1)
   \<and> read_bits 9 (BitStream_from [0xFF, 0xA5]) = Some ([1, 0, 1, 0, 0, 1, 0, 1], IndexOverflow)
   \<and> read_bits 1 (BitStream_from [0x80]) = Some ([], IndexOverflow)"
proof -
  have "read_bits 9 (BitStream_from [0xFF, 0xA5]) =
      Some ([1, 0, 1, 0, 0, 1, 0, 1], IndexOverflow)"
    by code_simp
  moreover have "read_bits 1 (BitStream_from [0x80]) = Some ([], IndexOverflow)"
    by code_simp
  ultimately show ?thesis
    using read_bits_tail [of buf] length_msb_first [of "tl buf"] by simp
qed

text \<open>
  Claim C5 says that a call of \<^verbatim>\<open>readBytes\<close> with an offset, the offset 0 included,
  leaves the cursor where it was. The offset 0 is falsy in
  \<^verbatim>\<open>offset ? this.position : this.position + n\<close>, so reading one byte at offset 0
  moves the cursor from 0 to 1, and so does \<^verbatim>\<open>getNextUInt8\<close> on a fresh stream.
\<close>

theorem readBytes_offset_zero_advances:
  "readBytes (BitStream_from [1, 2, 3]) 1 (Some 0) False =
     Inr (1, \<lparr>bytes = [1, 2, 3], position = 1, currByte = 0, byteCounter = 0\<rparr>)
   \<and> getNextUInt8 (BitStream_from [1, 2, 3]) =
     Inr (1, \<lparr>bytes = [1, 2, 3], position = 1, currByte = 0, byteCounter = 0\<rparr>)"
  by code_simp

text \<open>
  Claim C6 says that a read whose range ends exactly at the last byte is in bounds.
  The guard is \<^verbatim>\<open>curr_position + n >= this.length\<close>, so reading both bytes of a
  sequence of two bytes fails with \<open>BufferOverflow\<close>, in either byte order.
\<close>

theorem readBytes_to_last_byte_overflows:
  "readBytes (BitStream_from [a, b]) 2 None le = Inl BufferOverflow"
  by (simp add: readBytes_def BitStream_from_def)

section \<open>Properties of the markers\<close>

lemma JPGMarker_new_succeeds: "\<exists>m. JPGMarker_new nm cd buf = Inr m"
  by (simp add: JPGMarker_new_def Buffer_from_def Buffer_readUInt16BE_def)

text \<open>
  Claim C4: for a buffer of any size, constructing an SOI or an EOI marker succeeds,
  and the marker reports the length 2.
\<close>

theorem SOI_EOI_length_is_2:
  "(\<exists>m. JPEG_SOIMarker buf = Inr m \<and> markerLength m = 2) \<and>
   (\<exists>m. JPEG_EOIMarker buf = Inr m \<and> markerLength m = 2)"
proof -
  from JPGMarker_new_succeeds obtain m1 m2 where
    "JPGMarker_new ''SOI - Start Of Image'' SOI_MARKER buf = Inr m1"
    "JPGMarker_new ''EOI - End Of Image'' EOI_MARKER buf = Inr m2"
    by blast
  then show ?thesis
    by (simp add: JPEG_SOIMarker_def JPEG_EOIMarker_def decodeSync_SOI_def decodeSync_EOI_def
        markerLength_def)
qed

section \<open>Properties of the aggregator\<close>

lemma addMarker_loop_step:
  assumes "0 < len" and "ctor sb = Inr m"
  shows "addMarker_loop ctor bb len pos sb a =
         addMarker_loop ctor bb (len - (tableLength m - 4)) (pos + tableLength m - 4)
           (subarray bb (pos + tableLength m - 4))
           (a\<lparr>markers := (markers a)(identifier m \<mapsto> m), size_a := size_a a + 1\<rparr>)"
  using assms by (subst addMarker_loop.simps) simp

text \<open>What a run reaches from the state after an iteration, it reaches from the state before.\<close>

lemma loop_reaches_after_iteration:
  assumes "0 < len" and "ctor (subarray bb pos) = Inr m"
    and "loop_reaches ctor bb (len - (tableLength m - 4)) (pos + tableLength m - 4) l p"
  shows "loop_reaches ctor bb len pos l p"
  using assms(3)
proof induction
  case start
  show ?case
    by (rule loop_reaches.iteration [where ctor = ctor, OF loop_reaches.start assms(1) assms(2)])
next
  case (iteration l p m')
  then show ?case
    by (intro loop_reaches.iteration)
qed

text \<open>The run from a state it reaches is the rest of the run from the start.\<close>

lemma addMarker_loop_reaches:
  assumes "loop_reaches ctor bb len0 pos0 len pos"
  shows "\<exists>a'. addMarker_loop ctor bb len0 pos0 (subarray bb pos0) a =
              addMarker_loop ctor bb len pos (subarray bb pos) a'"
  using assms
proof induction
  case start
  show ?case by blast
next
  case (iteration len pos m)
  then obtain a' where
    "addMarker_loop ctor bb len0 pos0 (subarray bb pos0) a =
     addMarker_loop ctor bb len pos (subarray bb pos) a'"
    by blast
  with addMarker_loop_step [where ctor = ctor, OF iteration(2) iteration(3), of bb pos a'] show ?case
    by metis
qed

lemma addMarker_loop_terminates:
  assumes "\<forall>l p m. loop_reaches ctor bb len pos l p \<and> 0 < l \<and> ctor (subarray bb p) = Inr m
             \<longrightarrow> 5 \<le> tableLength m"
  shows "\<exists>r. addMarker_loop ctor bb len pos (subarray bb pos) a = Some r"
  using assms
proof (induction "nat len" arbitrary: len pos a rule: less_induct)
  case less
  show ?case
  proof (cases "0 < len")
    case False
    then show ?thesis by (subst addMarker_loop.simps) simp
  next
    case True
    show ?thesis
    proof (cases "ctor (subarray bb pos)")
      case (Inl e)
      with True show ?thesis by (subst addMarker_loop.simps) simp
    next
      case (Inr m)
      with less.prems True loop_reaches.start [of ctor bb len pos] have "5 \<le> tableLength m"
        by blast
      with True have smaller: "nat (len - (tableLength m - 4)) < nat len" by linarith
      have later: "\<forall>l p m'. loop_reaches ctor bb (len - (tableLength m - 4))
            (pos + tableLength m - 4) l p \<and> 0 < l \<and> ctor (subarray bb p) = Inr m'
          \<longrightarrow> 5 \<le> tableLength m'"
        using less.prems loop_reaches_after_iteration [where ctor = ctor, OF True Inr] by blast
      from less.hyps [OF smaller later] obtain r where
        "addMarker_loop ctor bb (len - (tableLength m - 4)) (pos + tableLength m - 4)
           (subarray bb (pos + tableLength m - 4))
           (a\<lparr>markers := (markers a)(identifier m \<mapsto> m), size_a := size_a a + 1\<rparr>) = Some r"
        by blast
      with addMarker_loop_step [where ctor = ctor, OF True Inr] show ?thesis by simp
    qed
  qed
qed

text \<open>
  A run that returns has left the loop: it was not at a state with a positive
  remaining length from which every sub-table constructed reports at most 4.
\<close>

lemma addMarker_loop_Some_exit:
  assumes ret: "addMarker_loop ctor bb len pos sb a = Some r"
  shows "\<not> (sb = subarray bb pos \<and> 0 < len \<and>
            (\<forall>l p. loop_reaches ctor bb len pos l p \<and> 0 < l \<longrightarrow>
               (\<exists>m. ctor (subarray bb p) = Inr m \<and> tableLength m \<le> 4)))"
proof (rule addMarker_loop.raw_induct
    [where P = "\<lambda>ctor bb len pos sb a r.
       \<not> (sb = subarray bb pos \<and> 0 < len \<and>
            (\<forall>l p. loop_reaches ctor bb len pos l p \<and> 0 < l \<longrightarrow>
               (\<exists>m. ctor (subarray bb p) = Inr m \<and> tableLength m \<le> 4)))",
     OF _ ret])
  fix loop :: "table_ctor \<Rightarrow> 8 word list \<Rightarrow> int \<Rightarrow> int \<Rightarrow> 8 word list \<Rightarrow> TableMarkerAggregator
     \<Rightarrow> (error + int \<times> TableMarkerAggregator) option"
  fix ctor :: table_ctor and bb sb :: "8 word list" and len pos :: int
    and a :: TableMarkerAggregator and r :: "error + int \<times> TableMarkerAggregator"
  assume IH: "\<And>ctor bb len pos sb a r. loop ctor bb len pos sb a = Some r \<Longrightarrow>
     \<not> (sb = subarray bb pos \<and> 0 < len \<and>
          (\<forall>l p. loop_reaches ctor bb len pos l p \<and> 0 < l \<longrightarrow>
             (\<exists>m. ctor (subarray bb p) = Inr m \<and> tableLength m \<le> 4)))"
  assume body: "(if 0 < len then
        (case ctor sb of
           Inl e \<Rightarrow> Some (Inl e)
         | Inr marker \<Rightarrow>
             loop ctor bb (len - (tableLength marker - 4))
               (pos + tableLength marker - 4)
               (subarray bb (pos + tableLength marker - 4))
               (a\<lparr>markers := (markers a)(identifier marker \<mapsto> marker),
                  size_a := size_a a + 1\<rparr>))
      else Some (Inr (pos, a))) = Some r"
  show "\<not> (sb = subarray bb pos \<and> 0 < len \<and>
          (\<forall>l p. loop_reaches ctor bb len pos l p \<and> 0 < l \<longrightarrow>
             (\<exists>m. ctor (subarray bb p) = Inr m \<and> tableLength m \<le> 4)))"
  proof
    assume hyp: "sb = subarray bb pos \<and> 0 < len \<and>
          (\<forall>l p. loop_reaches ctor bb len pos l p \<and> 0 < l \<longrightarrow>
             (\<exists>m. ctor (subarray bb p) = Inr m \<and> tableLength m \<le> 4))"
    then have pos_len: "0 < len" and sb: "sb = subarray bb pos" by simp_all
    from hyp loop_reaches.start [of ctor bb len pos] obtain m where
      m: "ctor (subarray bb pos) = Inr m" "tableLength m \<le> 4"
      by blast
    from body pos_len m sb have next_run:
      "loop ctor bb (len - (tableLength m - 4)) (pos + tableLength m - 4)
         (subarray bb (pos + tableLength m - 4))
         (a\<lparr>markers := (markers a)(identifier m \<mapsto> m), size_a := size_a a + 1\<rparr>) = Some r"
      by simp
    have "0 < len - (tableLength m - 4)"
      using m(2) pos_len by linarith
    moreover have "\<forall>l p. loop_reaches ctor bb (len - (tableLength m - 4))
          (pos + tableLength m - 4) l p \<and> 0 < l \<longrightarrow>
        (\<exists>m. ctor (subarray bb p) = Inr m \<and> tableLength m \<le> 4)"
      using hyp loop_reaches_after_iteration [where ctor = ctor, OF pos_len m(1)] by blast
    ultimately show False
      using IH [OF next_run] by blast
  qed
qed

lemma addMarker_loop_all_short:
  assumes "0 < len"
    and "\<forall>l p. loop_reaches ctor bb len pos l p \<and> 0 < l \<longrightarrow>
           (\<exists>m. ctor (subarray bb p) = Inr m \<and> tableLength m \<le> 4)"
  shows "addMarker_loop ctor bb len pos (subarray bb pos) a = None"
proof (cases "addMarker_loop ctor bb len pos (subarray bb pos) a")
  case None
  then show ?thesis .
next
  case (Some r)
  from addMarker_loop_Some_exit [OF this] assms show ?thesis by blast
qed

text \<open>
  A sub-table that reports exactly 4 leaves the remaining length and the position as
  they were, so the next iteration constructs it again: from there the run reaches
  no other state.
\<close>

lemma loop_reaches_fixed:
  assumes "ctor (subarray bb pos) = Inr m" and "tableLength m = 4"
    and "loop_reaches ctor bb len pos l p"
  shows "l = len \<and> p = pos"
  using assms(3)
proof induction
  case start
  show ?case by simp
next
  case (iteration l p m')
  with assms(1) assms(2) show ?case by simp
qed

lemma addMarker_loop_spins:
  assumes "0 < len" and "ctor (subarray bb pos) = Inr m" and "tableLength m = 4"
  shows "addMarker_loop ctor bb len pos (subarray bb pos) a = None"
proof (rule addMarker_loop_all_short [OF assms(1)], intro allI impI)
  fix l p
  assume "loop_reaches ctor bb len pos l p \<and> 0 < l"
  with loop_reaches_fixed [where ctor = ctor, OF assms(2) assms(3)] have "p = pos" by blast
  with assms show "\<exists>m. ctor (subarray bb p) = Inr m \<and> tableLength m \<le> 4" by simp
qed

text \<open>
  Claim C10, as amended. \<^verbatim>\<open>addMarker\<close> terminates, by returning or by throwing, for
  every segment when each sub-table that the run constructs reports a length of at
  least 5. An iteration replaces the remaining length by that length less
  \<open>markerLength - 4\<close>: it is smaller when the sub-table reports at least 5, and not
  smaller when it reports at most 4. When a sub-table that the run constructs reports
  exactly 4, \<^verbatim>\<open>addMarker\<close> does not terminate; and when the run reaches a state with
  a positive remaining length from which every construction succeeds and reports at
  most 4, \<^verbatim>\<open>addMarker\<close> does not terminate.
\<close>

theorem addMarker_termination:
  "((\<forall>v len pos m. Buffer_readUInt16BE buf 2 = Inr v \<and>
        loop_reaches ctor buf (v - 2) 4 len pos \<and> 0 < len \<and>
        ctor (subarray buf pos) = Inr m \<longrightarrow> 5 \<le> tableLength m) \<longrightarrow>
      (\<exists>r. addMarker ctor a buf = Some r))
   \<and> (0 < len \<and> ctor sb = Inr m \<longrightarrow>
        addMarker_loop ctor buf len pos sb a =
          addMarker_loop ctor buf (len - (tableLength m - 4)) (pos + tableLength m - 4)
            (subarray buf (pos + tableLength m - 4))
            (a\<lparr>markers := (markers a)(identifier m \<mapsto> m), size_a := size_a a + 1\<rparr>)
        \<and> (5 \<le> tableLength m \<longrightarrow> len - (tableLength m - 4) < len)
        \<and> (tableLength m \<le> 4 \<longrightarrow> len \<le> len - (tableLength m - 4)))
   \<and> (Buffer_readUInt16BE buf 2 = Inr v \<and> loop_reaches ctor buf (v - 2) 4 len pos \<and>
        0 < len \<and> ctor (subarray buf pos) = Inr m \<and> tableLength m = 4 \<longrightarrow>
        addMarker ctor a buf = None)
   \<and> (Buffer_readUInt16BE buf 2 = Inr v \<and> loop_reaches ctor buf (v - 2) 4 len pos \<and>
        0 < len \<and>
        (\<forall>l p. loop_reaches ctor buf len pos l p \<and> 0 < l \<longrightarrow>
           (\<exists>m. ctor (subarray buf p) = Inr m \<and> tableLength m \<le> 4)) \<longrightarrow>
        addMarker ctor a buf = None)"
proof (intro conjI impI)
  assume big: "\<forall>v len pos m. Buffer_readUInt16BE buf 2 = Inr v \<and>
        loop_reaches ctor buf (v - 2) 4 len pos \<and> 0 < len \<and>
        ctor (subarray buf pos) = Inr m \<longrightarrow> 5 \<le> tableLength m"
  show "\<exists>r. addMarker ctor a buf = Some r"
  proof (cases "Buffer_readUInt16BE buf 2")
    case (Inl e)
    then show ?thesis by (simp add: addMarker_def Buffer_from_def)
  next
    case (Inr v')
    with big have "\<forall>l p m. loop_reaches ctor buf (v' - 2) 4 l p \<and> 0 < l \<and>
        ctor (subarray buf p) = Inr m \<longrightarrow> 5 \<le> tableLength m"
      by blast
    from addMarker_loop_terminates [OF this, of a] Inr show ?thesis
      by (simp add: addMarker_def Buffer_from_def)
  qed
next
  assume "0 < len \<and> ctor sb = Inr m"
  then show "addMarker_loop ctor buf len pos sb a =
      addMarker_loop ctor buf (len - (tableLength m - 4)) (pos + tableLength m - 4)
        (subarray buf (pos + tableLength m - 4))
        (a\<lparr>markers := (markers a)(identifier m \<mapsto> m), size_a := size_a a + 1\<rparr>)"
    by (simp add: addMarker_loop_step)
next
  assume "5 \<le> tableLength m"
  then show "len - (tableLength m - 4) < len" by simp
next
  assume "tableLength m \<le> 4"
  then show "len \<le> len - (tableLength m - 4)" by simp
next
  assume h: "Buffer_readUInt16BE buf 2 = Inr v \<and> loop_reaches ctor buf (v - 2) 4 len pos \<and>
        0 < len \<and> ctor (subarray buf pos) = Inr m \<and> tableLength m = 4"
  then have "loop_reaches ctor buf (v - 2) 4 len pos" by simp
  from addMarker_loop_reaches [OF this, of a] obtain a' where
    "addMarker_loop ctor buf (v - 2) 4 (subarray buf 4) a =
     addMarker_loop ctor buf len pos (subarray buf pos) a'"
    by blast
  moreover from h have "addMarker_loop ctor buf len pos (subarray buf pos) a' = None"
    by (intro addMarker_loop_spins [where ctor = ctor and m = m]) simp_all
  ultimately show "addMarker ctor a buf = None"
    using h by (simp add: addMarker_def Buffer_from_def)
next
  assume h: "Buffer_readUInt16BE buf 2 = Inr v \<and> loop_reaches ctor buf (v - 2) 4 len pos \<and>
        0 < len \<and>
        (\<forall>l p. loop_reaches ctor buf len pos l p \<and> 0 < l \<longrightarrow>
           (\<exists>m. ctor (subarray buf p) = Inr m \<and> tableLength m \<le> 4))"
  then have "loop_reaches ctor buf (v - 2) 4 len pos" by simp
  from addMarker_loop_reaches [OF this, of a] obtain a' where
    "addMarker_loop ctor buf (v - 2) 4 (subarray buf 4) a =
     addMarker_loop ctor buf len pos (subarray buf pos) a'"
    by blast
  moreover from h have "addMarker_loop ctor buf len pos (subarray buf pos) a' = None"
    by (intro addMarker_loop_all_short) simp_all
  ultimately show "addMarker ctor a buf = None"
    using h by (simp add: addMarker_def Buffer_from_def)
qed

text \<open>
  Two segments whose lengths the constructor of \<^verbatim>\<open>JPGMarker\<close> reads. In the first
  the declared length is 3 and the one sub-table reports 5: the run reaches the
  states \<open>(1, 4)\<close> and \<open>(0, 5)\<close> only. In the second the declared length is 5 and the
  sub-table at position 4 reports 4.
\<close>

lemma base_table_reports_5:
  "base_table (subarray [0xFF, 0xC4, 0, 3, 0, 0, 0, 3, 0] 4) =
     Inr \<lparr>identifier = 0, destination = 0, tableLength = 5\<rparr>"
  by code_simp

lemma base_table_reports_4:
  "base_table (subarray [0xFF, 0xC4, 0, 5, 0, 0, 0, 2, 0] 4) =
     Inr \<lparr>identifier = 0, destination = 0, tableLength = 4\<rparr>"
  by code_simp

lemma loop_reaches_one_table:
  assumes "loop_reaches base_table [0xFF, 0xC4, 0, 3, 0, 0, 0, 3, 0] 1 4 l p"
  shows "(l = 1 \<and> p = 4) \<or> (l = 0 \<and> p = 5)"
  using assms
proof induction
  case start
  show ?case by simp
next
  case (iteration l p m)
  then have "l = 1" "p = 4" by auto
  with iteration(3) base_table_reports_5 have "tableLength m = 5" by auto
  with \<open>l = 1\<close> \<open>p = 4\<close> show ?case by simp
qed

text \<open>
  The parts of the theorem at concrete segments: the segment with one sub-table of
  length 5 and the iteration that constructs it, the segment whose sub-table reports
  4, and a segment with the constructor that always reports 3.
\<close>

theorem addMarker_termination_witness:
  "(\<exists>r. addMarker base_table new_aggregator [0xFF, 0xC4, 0, 3, 0, 0, 0, 3, 0] = Some r)
   \<and> addMarker_loop base_table [0xFF, 0xC4, 0, 3, 0, 0, 0, 3, 0] 1 4 [0, 0, 0, 3, 0]
         new_aggregator =
       addMarker_loop base_table [0xFF, 0xC4, 0, 3, 0, 0, 0, 3, 0] 0 5 [0, 0, 3, 0]
         (new_aggregator\<lparr>markers := (markers new_aggregator)
            (0 \<mapsto> \<lparr>identifier = 0, destination = 0, tableLength = 5\<rparr>),
            size_a := size_a new_aggregator + 1\<rparr>)
   \<and> (1::int) - (5 - 4) < 1
   \<and> (3::int) \<le> 3 - (4 - 4)
   \<and> addMarker base_table new_aggregator [0xFF, 0xC4, 0, 5, 0, 0, 0, 2, 0] = None
   \<and> addMarker (constant_table 3) new_aggregator [0xFF, 0xC4, 0, 5] = None"
proof -
  have rd3: "Buffer_readUInt16BE [0xFF, 0xC4, 0, 3, 0, 0, 0, 3, 0] 2 = Inr 3"
    by code_simp
  have rd5: "Buffer_readUInt16BE [0xFF, 0xC4, 0, 5, 0, 0, 0, 2, 0] 2 = Inr 5"
    by code_simp
  have rd5': "Buffer_readUInt16BE [0xFF, 0xC4, 0, 5] 2 = Inr 5"
    by code_simp
  have big: "\<forall>v len pos m.
      Buffer_readUInt16BE [0xFF, 0xC4, 0, 3, 0, 0, 0, 3, 0] 2 = Inr v \<and>
      loop_reaches base_table [0xFF, 0xC4, 0, 3, 0, 0, 0, 3, 0] (v - 2) 4 len pos \<and> 0 < len \<and>
      base_table (subarray [0xFF, 0xC4, 0, 3, 0, 0, 0, 3, 0] pos) = Inr m
      \<longrightarrow> 5 \<le> tableLength m"
  proof (intro allI impI)
    fix v len pos m
    assume h: "Buffer_readUInt16BE [0xFF, 0xC4, 0, 3, 0, 0, 0, 3, 0] 2 = Inr v \<and>
      loop_reaches base_table [0xFF, 0xC4, 0, 3, 0, 0, 0, 3, 0] (v - 2) 4 len pos \<and> 0 < len \<and>
      base_table (subarray [0xFF, 0xC4, 0, 3, 0, 0, 0, 3, 0] pos) = Inr m"
    with rd3 have "v = 3" by simp
    with h have "loop_reaches base_table [0xFF, 0xC4, 0, 3, 0, 0, 0, 3, 0] 1 4 len pos"
      by simp
    from loop_reaches_one_table [OF this] h have "pos = 4" by auto
    with h base_table_reports_5 show "5 \<le> tableLength m" by auto
  qed
  have c1: "\<exists>r. addMarker base_table new_aggregator [0xFF, 0xC4, 0, 3, 0, 0, 0, 3, 0] = Some r"
    using addMarker_termination
      [where ctor = base_table and buf = "[0xFF, 0xC4, 0, 3, 0, 0, 0, 3, 0]"
        and a = new_aggregator] big
    by blast
  have sub5: "subarray [0xFF, 0xC4, 0, 3, 0, 0, 0, 3, 0] 4 = [0, 0, 0, 3, 0]"
    by (simp add: subarray_def)
  have c2: "addMarker_loop base_table [0xFF, 0xC4, 0, 3, 0, 0, 0, 3, 0] 1 4 [0, 0, 0, 3, 0]
         new_aggregator =
       addMarker_loop base_table [0xFF, 0xC4, 0, 3, 0, 0, 0, 3, 0] 0 5 [0, 0, 3, 0]
         (new_aggregator\<lparr>markers := (markers new_aggregator)
            (0 \<mapsto> \<lparr>identifier = 0, destination = 0, tableLength = 5\<rparr>),
            size_a := size_a new_aggregator + 1\<rparr>)
       \<and> (1::int) - (5 - 4) < 1"
    using addMarker_termination
      [where ctor = base_table and buf = "[0xFF, 0xC4, 0, 3, 0, 0, 0, 3, 0]" and len = 1
        and sb = "[0, 0, 0, 3, 0]"
        and m = "\<lparr>identifier = 0, destination = 0, tableLength = 5\<rparr>"
        and a = new_aggregator and pos = 4]
      base_table_reports_5
    by (simp add: subarray_def)
  have sub4: "subarray [0xFF, 0xC4, 0, 5, 0, 0, 0, 2, 0] 4 = [0, 0, 0, 2, 0]"
    by (simp add: subarray_def)
  have c3: "(3::int) \<le> 3 - (4 - 4)"
    using addMarker_termination
      [where ctor = base_table and buf = "[0xFF, 0xC4, 0, 5, 0, 0, 0, 2, 0]" and len = 3
        and sb = "[0, 0, 0, 2, 0]"
        and m = "\<lparr>identifier = 0, destination = 0, tableLength = 4\<rparr>"
        and a = new_aggregator and pos = 4]
      base_table_reports_4
    by (simp add: subarray_def)
  have c4: "addMarker base_table new_aggregator [0xFF, 0xC4, 0, 5, 0, 0, 0, 2, 0] = None"
    using addMarker_termination
      [where ctor = base_table and buf = "[0xFF, 0xC4, 0, 5, 0, 0, 0, 2, 0]" and v = 5
        and len = 3 and pos = 4
        and m = "\<lparr>identifier = 0, destination = 0, tableLength = 4\<rparr>"
        and a = new_aggregator]
      rd5 base_table_reports_4
      loop_reaches.start [of base_table "[0xFF, 0xC4, 0, 5, 0, 0, 0, 2, 0]" 3 4]
    by simp
  have small: "\<forall>l p. loop_reaches (constant_table 3) [0xFF, 0xC4, 0, 5] 3 4 l p \<and> 0 < l
        \<longrightarrow>
      (\<exists>m. constant_table 3 (subarray [0xFF, 0xC4, 0, 5] p) = Inr m \<and> tableLength m \<le> 4)"
    by (simp add: constant_table_def)
  have c5: "addMarker (constant_table 3) new_aggregator [0xFF, 0xC4, 0, 5] = None"
    using addMarker_termination
      [where ctor = "constant_table 3" and buf = "[0xFF, 0xC4, 0, 5]" and v = 5
        and len = 3 and pos = 4 and a = new_aggregator]
      rd5' small loop_reaches.start [of "constant_table 3" "[0xFF, 0xC4, 0, 5]" 3 4]
    by simp
  from c1 c2 c3 c4 c5 show ?thesis by blast
qed

text \<open>
  Claim C10 as it is stated calls the precondition necessary: one sub-table that
  reports a length of at most 4 would keep the loop from terminating. It does not.
  With the constructor of \<^verbatim>\<open>JPGMarker\<close> reading the lengths, the first sub-table of
  the segment below reports the length 3, which moves the position back by one byte
  and raises the remaining length from 1 to 2; the second sub-table, read from
  there, reports 258, and \<^verbatim>\<open>addMarker\<close> returns 257.
\<close>

theorem addMarker_short_table_terminates:
  "map_sum id tableLength (base_table (subarray [0xFF, 0xC4, 0, 3, 0, 1, 0, 1, 0, 0] 4)) = Inr 3
   \<and> map_option (map_sum id fst)
       (addMarker base_table new_aggregator [0xFF, 0xC4, 0, 3, 0, 1, 0, 1, 0, 0]) =
     Some (Inr 257)"
  by code_simp

text \<open>
  The segment with the declared length 5 and three one-byte sub-tables for the
  slots 0, 1 and 0: the third sub-table overwrites the first.
\<close>

lemma addMarker_three_tables:
  "addMarker one_byte_table new_aggregator [0xFF, 0xC4, 0, 5, 0, 1, 0] =
   Some (Inr (7,
     \<lparr>markers = Map.empty
        (0 \<mapsto> \<lparr>identifier = 0, destination = 0, tableLength = 5\<rparr>,
         1 \<mapsto> \<lparr>identifier = 1, destination = 1, tableLength = 5\<rparr>,
         0 \<mapsto> \<lparr>identifier = 0, destination = 0, tableLength = 5\<rparr>),
      size_a = 3\<rparr>))"
proof -
  have rd: "Buffer_readUInt16BE [0xFF, 0xC4, 0, 5, 0, 1, 0] 2 = Inr 5"
    by code_simp
  show ?thesis
    unfolding addMarker_def Let_def Buffer_from_def rd
    apply (simp add: subarray_def new_aggregator_def)
    apply (subst addMarker_loop.simps, simp add: one_byte_table_def subarray_def)
    apply (subst addMarker_loop.simps, simp add: one_byte_table_def subarray_def)
    apply (subst addMarker_loop.simps, simp add: one_byte_table_def subarray_def)
    apply (subst addMarker_loop.simps, simp)
    done
qed

text \<open>
  Claim C2 says that \<^verbatim>\<open>nofMarkers\<close> is the number of distinct occupied slots, 2 after
  sub-tables for the slots 0 and 1 and a third for slot 0 again. \<^verbatim>\<open>addMarker\<close>
  executes \<^verbatim>\<open>this.size++\<close> for every sub-table, also for one that overwrites: the
  collection then holds the two keys 0 and 1, and \<^verbatim>\<open>nofMarkers\<close> is 3.
\<close>

theorem addMarker_counts_insertions:
  "map_option (map_sum id (\<lambda>(p, a). (p, nofMarkers a, dom (markers a))))
     (addMarker one_byte_table new_aggregator [0xFF, 0xC4, 0, 5, 0, 1, 0]) =
   Some (Inr (7, 3, {0, 1}))"
  by (simp add: addMarker_three_tables nofMarkers_def insert_commute)

section \<open>Properties of ToZigZag\<close>

lemma ToZigZag_single_row:
  "ToZigZag (v # vs) 1 (Suc (length vs)) = Inl TypeError"
proof -
  have ds: "[0 .. int (length vs)] = 0 # [1 .. int (length vs)]"
    by (simp add: upto_rec1)
  show ?thesis
    by (simp add: ToZigZag_def Let_def matrix_set_def row_set_def values_at_def ds
        diagonal_step_def)
qed

text \<open>
  Claim C7 says that the vector 1 to 12 with 3 rows and 4 columns gives the matrix
  of the documentation comment. The first diagonal moves the position down to row 1
  and the second to row 2, from where the walk steps down and left to row 3, which
  the matrix does not have: the call throws a \<open>TypeError\<close> and returns no matrix.
\<close>

theorem ToZigZag_doc_example:
  "ToZigZag [1, 2, 3, 4, 5, 6, 7, 8, 9, 10, 11, 12] 3 4 = Inl TypeError"
  by code_simp

text \<open>
  Claim C8 says that, for every shape and every vector that fits it, the matrix
  returned can be flattened back to the vector. For every matrix of one row the call
  throws a \<open>TypeError\<close>, as it does for the square of 2 by 2; for the column of two
  rows it returns rows of different lengths, with the first value written twice.
\<close>

theorem ToZigZag_no_matrix:
  "ToZigZag (v # vs) 1 (Suc (length vs)) = Inl TypeError
   \<and> ToZigZag [1, 2, 3, 4] 2 2 = Inl TypeError
   \<and> ToZigZag [1, 2] 2 1 =
       Inr [\<lparr>elems = [Some 1], props = []\<rparr>, \<lparr>elems = [Some 1, Some 2], props = []\<rparr>]"
proof -
  have "ToZigZag [1, 2, 3, 4] 2 2 = Inl TypeError"
    by code_simp
  moreover have "ToZigZag [1, 2] 2 1 =
       Inr [\<lparr>elems = [Some 1], props = []\<rparr>, \<lparr>elems = [Some 1, Some 2], props = []\<rparr>]"
    by code_simp
  ultimately show ?thesis
    using ToZigZag_single_row [of v vs] by blast
qed

section \<open>Properties of the Huffman tree\<close>

lemma setSymbol_twice:
  assumes "setSymbol node v1 = Inr node'"
  shows "setSymbol node' v2 =
     (if truthy v1 then Inl AlreadyExists else Inr (HuffmanNode (left node) (rigth node) v2))"
  using assms by (auto simp: setSymbol_def split: if_splits)

text \<open>
  Claim C9 says that a second \<^verbatim>\<open>setSymbol\<close> on a node that carries a symbol fails,
  whichever symbol was set first. The test is \<^verbatim>\<open>if (this.symbol)\<close>, and the symbol 0
  is falsy: after \<^verbatim>\<open>setSymbol(0)\<close> a second call succeeds and replaces the symbol.
\<close>

theorem setSymbol_zero_overwritten:
  "setSymbol (HuffmanNode l r Null) (Num 0) = Inr (HuffmanNode l r (Num 0)) \<and>
   setSymbol (HuffmanNode l r (Num 0)) (Num v) = Inr (HuffmanNode l r (Num v))"
  by (simp add: setSymbol_def truthy_def)

lemma decode_walk_undefined_leaf:
  "decode_walk
     (HuffmanNode (Some (HuffmanNode (Some (HuffmanNode None None Undefined)) None Null))
        None Null) bs \<noteq> Inr (Num v)"
proof (cases bs)
  case Nil
  then show ?thesis by (simp add: isLeaf_def)
next
  case outer: (Cons b1 bs1)
  show ?thesis
  proof (cases bs1)
    case Nil
    with outer show ?thesis by (simp add: isLeaf_def getNextNode_def validateInput_def)
  next
    case middle: (Cons b2 bs2)
    show ?thesis
    proof (cases bs2)
      case Nil
      with outer middle show ?thesis
        by (simp add: isLeaf_def getNextNode_def validateInput_def)
    next
      case (Cons b3 bs3)
      with outer middle show ?thesis
        by (simp add: isLeaf_def getNextNode_def validateInput_def)
    qed
  qed
qed

lemma decode_walk_absent_child:
  "getNextNode node b = Inr None \<Longrightarrow> decode_walk node (b # rest) = Inr Null"
  by simp

lemma decode_walk_inner_node:
  "\<not> isLeaf node \<Longrightarrow> decode_walk node [] = Inr Null"
  by simp

lemma buildTree_single_code:
  "buildTree new_tree [0, 1] [5] =
     Inr \<lparr>bits = [0, 1], symbols = [5], codes = [- 1, 0],
          root = HuffmanNode
            (Some (HuffmanNode (Some (HuffmanNode None None Undefined)) None Null))
            None Null\<rparr>"
  by code_simp

text \<open>
  Claim C3 says that after building from \<open>bits = [0, 1]\<close> and \<open>symbols = [5]\<close> the
  code of the single entry decodes to 5. \<^verbatim>\<open>buildHuffmanTree\<close> reads the symbol at
  \<^verbatim>\<open>codes_index + counter\<close>, which is 1 here, past the end of \<open>symbols\<close>: the node
  of the code 00 gets the symbol \<^verbatim>\<open>undefined\<close> and is no leaf. Walking the bits 0, 0
  gives no match, and no bit sequence at all decodes to 5.
\<close>

theorem buildTree_loses_symbol:
  "buildTree new_tree [0, 1] [5] =
     Inr \<lparr>bits = [0, 1], symbols = [5], codes = [- 1, 0],
          root = HuffmanNode
            (Some (HuffmanNode (Some (HuffmanNode None None Undefined)) None Null))
            None Null\<rparr>
   \<and> decode_walk
       (HuffmanNode (Some (HuffmanNode (Some (HuffmanNode None None Undefined)) None Null))
          None Null) [0, 0] = Inr Null
   \<and> decode gen
       \<lparr>bits = [0, 1], symbols = [5], codes = [- 1, 0],
        root = HuffmanNode
          (Some (HuffmanNode (Some (HuffmanNode None None Undefined)) None Null))
          None Null\<rparr> c \<noteq> Inr (Num 5)"
  using decode_walk_undefined_leaf
  by (simp add: buildTree_single_code decode_def isLeaf_def getNextNode_def validateInput_def)

end
